theory Spec2Isabelle
  imports Main
begin

section \<open>Python strings\<close>

text \<open>
  A Python \<open>str\<close> is a sequence of Unicode code points, so a string is a list of
  natural numbers. \<open>lit\<close> turns an ASCII literal of the source into such a list.
\<close>

type_synonym pystr = "nat list"

definition lit :: "string \<Rightarrow> pystr" where
  "lit s = map of_char s"

text \<open>
  The code points that \<open>str.isspace\<close>, \<open>str.strip()\<close> and \<open>str.split()\<close> treat as
  white space: TAB..CR, FS..US, SPACE, NEL, NBSP, OGHAM SPACE MARK, EN QUAD..HAIR SPACE,
  LINE and PARAGRAPH SEPARATOR, NARROW NBSP, MEDIUM MATHEMATICAL SPACE, IDEOGRAPHIC SPACE.
\<close>

definition is_space :: "nat \<Rightarrow> bool" where
  "is_space c \<longleftrightarrow>
     (9 \<le> c \<and> c \<le> 13) \<or> (28 \<le> c \<and> c \<le> 32) \<or> c = 133 \<or> c = 160 \<or> c = 5760 \<or>
     (8192 \<le> c \<and> c \<le> 8202) \<or> c = 8232 \<or> c = 8233 \<or> c = 8239 \<or> c = 8287 \<or> c = 12288"

definition non_space :: "nat \<Rightarrow> bool" where
  "non_space c \<longleftrightarrow> \<not> is_space c"

text \<open>\<open>s.strip()\<close>: white space removed at both ends.\<close>

definition strip :: "pystr \<Rightarrow> pystr" where
  "strip s = rev (dropWhile is_space (rev (dropWhile is_space s)))"

text \<open>\<open>s.split('\n')\<close>: the pieces between line feeds, empty ones included.\<close>

fun split_nl :: "pystr \<Rightarrow> pystr list" where
  "split_nl [] = [[]]"
| "split_nl (c # cs) =
     (if c = 10 then [] # split_nl cs
      else (case split_nl cs of [] \<Rightarrow> [[c]] | l # ls \<Rightarrow> (c # l) # ls))"

text \<open>
  \<open>s.split()\<close>: the maximal runs of characters that are not white space. The measure
  is the length of what is left to scan.
\<close>

function split_ws :: "pystr \<Rightarrow> pystr list" where
  "split_ws s =
     (let s1 = dropWhile is_space s in
      if s1 = [] then []
      else takeWhile non_space s1 # split_ws (dropWhile non_space s1))"
  by pat_completeness auto
termination
proof (relation "measure length")
  show "wf (measure length)" by simp
next
  fix s s1 :: pystr
  assume a: "s1 = dropWhile is_space s" "s1 \<noteq> []"
  from a(2) obtain x xs where s1: "s1 = x # xs"
    by (meson neq_Nil_conv)
  have "non_space (hd s1)"
    using a hd_dropWhile [of is_space s] by (simp add: non_space_def)
  with s1 have "dropWhile non_space s1 = dropWhile non_space xs"
    by simp
  then have "length (dropWhile non_space s1) \<le> length xs"
    by (simp add: length_dropWhile_le)
  moreover have "length s1 \<le> length s"
    using a by (simp add: length_dropWhile_le)
  ultimately show "(dropWhile non_space s1, s) \<in> measure length"
    using s1 by simp
qed

declare split_ws.simps [simp del]

text \<open>
  \<open>s.split(maxsplit=1)\<close>: leading white space is skipped; the first run of other
  characters is the first part; the white space after it is skipped, and what is left,
  if anything, is the second part, with its own white space kept.
\<close>

definition split_max1 :: "pystr \<Rightarrow> pystr list" where
  "split_max1 s =
     (let s1 = dropWhile is_space s in
      if s1 = [] then []
      else
        (let tok = takeWhile non_space s1;
             rest = dropWhile is_space (dropWhile non_space s1)
         in if rest = [] then [tok] else [tok, rest]))"

text \<open>\<open>xs[i]\<close>: an index below 0 is taken from the end; outside both ranges the read raises.\<close>

datatype py_exc = OSError | UnicodeDecodeError | IndexError | ValueError

definition py_index :: "'a list \<Rightarrow> int \<Rightarrow> py_exc + 'a" where
  "py_index xs i =
     (if 0 \<le> i \<and> i < int (length xs) then Inr (xs ! nat i)
      else if i < 0 \<and> - int (length xs) \<le> i then Inr (xs ! nat (int (length xs) + i))
      else Inl IndexError)"

section \<open>The terminal and the external tool\<close>

text \<open>
  A key event of the terminal library is a string with an optional key code. The codes
  the program compares with are constructors; every other code is \<open>KEY_OTHER\<close>.
\<close>

datatype keycode = KEY_ENTER | KEY_ESCAPE | KEY_BACKSPACE | KEY_UP | KEY_DOWN | KEY_OTHER

record keystroke =
  chars :: pystr
  code :: "keycode option"

text \<open>
  \<open>key.lower() == 'x'\<close> for an ASCII lower-case letter \<open>x\<close>: the key is that letter or its
  capital (no other code point lower-cases to a, d, e or q).
\<close>

definition lower_is :: "keystroke \<Rightarrow> char \<Rightarrow> bool" where
  "lower_is k x \<longleftrightarrow> chars k = [of_char x] \<or> chars k = [of_char x - 32]"

text \<open>
  What a run of the external tool can do: it cannot be started (the operating system
  reports an error, for instance because the program is absent), or it exits with a code.
\<close>

datatype proc_outcome = Launch_failed | Exited int

text \<open>
  What one iteration of the loop receives from outside: the outcome of \<open>ipfw list\<close> and
  its decoded output (\<open>None\<close> when the bytes are not valid UTF-8), the height of the
  terminal, the key read, and the outcome of the command run in this iteration, if one is.
\<close>

record env =
  list_proc :: proc_outcome
  list_stdout :: "pystr option"
  height :: int
  key :: keystroke
  cmd_proc :: proc_outcome

section \<open>The session\<close>

record ipfw_rule =
  number :: pystr
  rule :: pystr

text \<open>
  The fields of \<open>IpfwTUI\<close>, and \<open>calls\<close>: the argument vectors handed to the process
  library so far, oldest first.
\<close>

record tui =
  current_rules :: "ipfw_rule list"
  selected_index :: int
  command_mode :: bool
  command_string :: pystr
  status_message :: pystr
  scroll_offset :: int
  command_history :: "pystr list"
  history_index :: int
  calls :: "pystr list list"

definition init :: tui where
  "init = \<lparr>current_rules = [], selected_index = 0, command_mode = False,
           command_string = [], status_message = [], scroll_offset = 0,
           command_history = [], history_index = 0, calls = []\<rparr>"

definition call :: "pystr list \<Rightarrow> tui \<Rightarrow> tui" where
  "call argv s = s\<lparr>calls := calls s @ [argv]\<rparr>"

subsection \<open>get_ipfw_rules\<close>

definition parse_line :: "pystr \<Rightarrow> ipfw_rule list \<Rightarrow> ipfw_rule list" where
  "parse_line line rules =
     (if strip line \<noteq> [] then
        (let parts = split_max1 line in
         if length parts \<ge> 2 then rules @ [\<lparr>number = parts ! 0, rule = parts ! 1\<rparr>]
         else rules)
      else rules)"

definition parse_rules :: "pystr \<Rightarrow> ipfw_rule list" where
  "parse_rules output = foldl (\<lambda>rules line. parse_line line rules) [] (split_nl output)"

definition get_ipfw_rules :: "env \<Rightarrow> tui \<Rightarrow> (py_exc + ipfw_rule list) \<times> tui" where
  "get_ipfw_rules e s =
     (let s1 = call [lit ''ipfw'', lit ''list''] s in
      case list_proc e of
        Launch_failed \<Rightarrow> (Inl OSError, s1)
      | Exited rc \<Rightarrow>
          if rc \<noteq> 0 then (Inr [], s1)
          else (case list_stdout e of
                  None \<Rightarrow> (Inl UnicodeDecodeError, s1)
                | Some output \<Rightarrow> (Inr (parse_rules output), s1)))"

subsection \<open>execute_ipfw_command\<close>

text \<open>
  \<open>subprocess.run\<close> refuses an argument vector in which an argument holds the null
  character: it raises \<open>ValueError\<close> before any process is started, whatever the tool
  would have done.
\<close>

definition has_nul :: "pystr list \<Rightarrow> bool" where
  "has_nul argv \<longleftrightarrow> list_ex (\<lambda>a. 0 \<in> set a) argv"

definition execute_ipfw_command :: "env \<Rightarrow> pystr \<Rightarrow> tui \<Rightarrow> (py_exc + bool) \<times> tui" where
  "execute_ipfw_command e command s =
     (let argv = lit ''ipfw'' # split_ws command;
          s1 = call argv s
      in if has_nul argv then (Inl ValueError, s1)
         else
           (case cmd_proc e of
              Launch_failed \<Rightarrow> (Inl OSError, s1)
            | Exited rc \<Rightarrow>
                if rc \<noteq> 0 then (Inr False, s1)
                else (Inr True,
                      if strip command \<noteq> []
                      then s1\<lparr>command_history := command_history s1 @ [command]\<rparr>
                      else s1)))"

subsection \<open>handle_command_input\<close>

definition handle_command_input :: "env \<Rightarrow> tui \<Rightarrow> (py_exc + bool) \<times> tui" where
  "handle_command_input e s =
     (let k = key e in
      if code k = Some KEY_ENTER then
        (case execute_ipfw_command e (command_string s) s of
           (Inl x, s1) \<Rightarrow> (Inl x, s1)
         | (Inr ok, s1) \<Rightarrow>
             (Inr True,
              s1\<lparr>status_message :=
                    (if ok then lit ''Command executed successfully''
                     else lit ''Error executing command''),
                  command_mode := False, command_string := []\<rparr>))
      else if code k = Some KEY_ESCAPE then
        (Inr True, s\<lparr>command_mode := False, command_string := []\<rparr>)
      else if code k = Some KEY_BACKSPACE then
        (Inr False, s\<lparr>command_string := butlast (command_string s)\<rparr>)
      else if code k = Some KEY_UP \<and> command_history s \<noteq> [] then
        (if history_index s > 0 then
           (let s1 = s\<lparr>history_index := history_index s - 1\<rparr> in
            case py_index (command_history s1) (history_index s1) of
              Inl x \<Rightarrow> (Inl x, s1)
            | Inr c \<Rightarrow> (Inr False, s1\<lparr>command_string := c\<rparr>))
         else (Inr False, s))
      else if code k = Some KEY_DOWN \<and> command_history s \<noteq> [] then
        (if history_index s < int (length (command_history s)) - 1 then
           (let s1 = s\<lparr>history_index := history_index s + 1\<rparr> in
            case py_index (command_history s1) (history_index s1) of
              Inl x \<Rightarrow> (Inl x, s1)
            | Inr c \<Rightarrow> (Inr False, s1\<lparr>command_string := c\<rparr>))
         else (Inr False, s))
      else if code k = None then
        (Inr False, s\<lparr>command_string := command_string s @ chars k\<rparr>)
      else (Inr False, s))"

subsection \<open>run\<close>

text \<open>
  The branch of the loop body taken outside command mode. The Boolean is \<open>True\<close> when the
  loop is left (\<open>break\<close>).
\<close>

definition browse_input :: "env \<Rightarrow> tui \<Rightarrow> (py_exc + bool) \<times> tui" where
  "browse_input e s =
     (let k = key e in
      if lower_is k CHR ''q'' then (Inr True, s)
      else if code k = Some KEY_UP then
        (if selected_index s > 0 then
           (let s1 = s\<lparr>selected_index := selected_index s - 1\<rparr> in
            (Inr False,
             if selected_index s1 < scroll_offset s1
             then s1\<lparr>scroll_offset := selected_index s1\<rparr> else s1))
         else (Inr False, s))
      else if code k = Some KEY_DOWN then
        (if selected_index s < int (length (current_rules s)) - 1 then
           (let s1 = s\<lparr>selected_index := selected_index s + 1\<rparr> in
            (Inr False,
             if selected_index s1 \<ge> scroll_offset s1 + (height e - 6)
             then s1\<lparr>scroll_offset := scroll_offset s1 + 1\<rparr> else s1))
         else (Inr False, s))
      else if lower_is k CHR ''a'' then
        (Inr False, s\<lparr>command_mode := True, command_string := [],
                       history_index := int (length (command_history s))\<rparr>)
      else if lower_is k CHR ''d'' then
        (if current_rules s \<noteq> [] then
           (case py_index (current_rules s) (selected_index s) of
              Inl x \<Rightarrow> (Inl x, s)
            | Inr r \<Rightarrow>
                (let rule_num = number r in
                 case execute_ipfw_command e (lit ''delete '' @ rule_num) s of
                   (Inl x, s1) \<Rightarrow> (Inl x, s1)
                 | (Inr ok, s1) \<Rightarrow>
                     (Inr False,
                      s1\<lparr>status_message :=
                            (if ok then lit ''Deleted rule '' @ rule_num
                             else lit ''Error deleting rule'')\<rparr>)))
         else (Inr False, s))
      else if lower_is k CHR ''e'' \<and> current_rules s \<noteq> [] then
        (case py_index (current_rules s) (selected_index s) of
           Inl x \<Rightarrow> (Inl x, s)
         | Inr r \<Rightarrow>
             (Inr False,
              s\<lparr>command_mode := True,
                command_string := lit ''delete '' @ number r @ lit '' && add '' @ rule r,
                history_index := int (length (command_history s))\<rparr>))
      else (Inr False, s))"

text \<open>The end of the loop body: \<open>if not self.command_mode: self.status_message = ""\<close>.\<close>

definition clear_status :: "tui \<Rightarrow> tui" where
  "clear_status s = (if \<not> command_mode s then s\<lparr>status_message := []\<rparr> else s)"

text \<open>
  What the screen shows of the status message when it is drawn: nothing when the message
  is empty. \<open>draw_screen\<close> reads the session and writes to the terminal only.
\<close>

definition drawn_status :: "tui \<Rightarrow> pystr option" where
  "drawn_status s = (if status_message s \<noteq> [] then Some (status_message s) else None)"

datatype flow = Continue | Break

text \<open>
  One pass through the body of \<open>while True\<close>: the rules are fetched, the screen is drawn,
  a key is read and dispatched. \<open>continue\<close> after a finished command skips the end of the
  body.
\<close>

definition iteration :: "env \<Rightarrow> tui \<Rightarrow> (py_exc + flow) \<times> tui" where
  "iteration e s =
     (case get_ipfw_rules e s of
        (Inl x, s1) \<Rightarrow> (Inl x, s1)
      | (Inr rules, s1) \<Rightarrow>
          (let s2 = s1\<lparr>current_rules := rules\<rparr> in
           if command_mode s2 then
             (case handle_command_input e s2 of
                (Inl x, s3) \<Rightarrow> (Inl x, s3)
              | (Inr done, s3) \<Rightarrow>
                  if done then (Inr Continue, s3) else (Inr Continue, clear_status s3))
           else
             (case browse_input e s2 of
                (Inl x, s3) \<Rightarrow> (Inl x, s3)
              | (Inr quit, s3) \<Rightarrow>
                  if quit then (Inr Break, s3) else (Inr Continue, clear_status s3))))"

text \<open>
  The loop of \<open>run\<close> over the events it receives, one per iteration: it ends at
  \<open>break\<close>, at an exception, or when the events are used up.
\<close>

fun run :: "env list \<Rightarrow> tui \<Rightarrow> (py_exc + flow) \<times> tui" where
  "run [] s = (Inr Continue, s)"
| "run (e # es) s =
     (case iteration e s of
        (Inl x, s1) \<Rightarrow> (Inl x, s1)
      | (Inr Break, s1) \<Rightarrow> (Inr Break, s1)
      | (Inr Continue, s1) \<Rightarrow> run es s1)"

section \<open>Properties: vocabulary\<close>

text \<open>The listing command exits with 0 and its output parses to the rules \<open>rs\<close>.\<close>

definition lists_rules :: "env \<Rightarrow> ipfw_rule list \<Rightarrow> bool" where
  "lists_rules e rs \<longleftrightarrow>
     list_proc e = Exited 0 \<and> map_option parse_rules (list_stdout e) = Some rs"

text \<open>The key of a printable character, and the keys that carry a code.\<close>

definition plain_key :: "char \<Rightarrow> keystroke" where
  "plain_key c = \<lparr>chars = [of_char c], code = None\<rparr>"

definition key_up :: keystroke where
  "key_up = \<lparr>chars = [27, 91, 65], code = Some KEY_UP\<rparr>"

definition key_down :: keystroke where
  "key_down = \<lparr>chars = [27, 91, 66], code = Some KEY_DOWN\<rparr>"

definition key_enter :: keystroke where
  "key_enter = \<lparr>chars = [10], code = Some KEY_ENTER\<rparr>"

definition key_escape :: keystroke where
  "key_escape = \<lparr>chars = [27], code = Some KEY_ESCAPE\<rparr>"

text \<open>An arrow key: its code is up or down, and its characters are not the letter q.\<close>

definition is_arrow :: "keystroke \<Rightarrow> bool" where
  "is_arrow k \<longleftrightarrow> (code k = Some KEY_UP \<or> code k = Some KEY_DOWN) \<and> \<not> lower_is k CHR ''q''"

text \<open>
  An iteration on a terminal of 24 lines where the tool lists the single rule
  \<open>65000 allow ip from any to any\<close>, the key \<open>k\<close> is read and a command, if one is
  run, ends as \<open>p\<close>.
\<close>

definition sample_env :: "keystroke \<Rightarrow> proc_outcome \<Rightarrow> env" where
  "sample_env k p =
     \<lparr>list_proc = Exited 0, list_stdout = Some (lit ''65000 allow ip from any to any''),
      height = 24, key = k, cmd_proc = p\<rparr>"

text \<open>An iteration where the tool cannot be started at all.\<close>

definition absent_env :: "keystroke \<Rightarrow> env" where
  "absent_env k =
     \<lparr>list_proc = Launch_failed, list_stdout = None, height = 24, key = k,
      cmd_proc = Launch_failed\<rparr>"

text \<open>An iteration where the tool starts and exits with code 1, printing nothing.\<close>

definition failing_env :: "keystroke \<Rightarrow> env" where
  "failing_env k =
     \<lparr>list_proc = Exited 1, list_stdout = Some [], height = 24, key = k,
      cmd_proc = Exited 1\<rparr>"

definition sample_rule :: ipfw_rule where
  "sample_rule = \<lparr>number = lit ''65000'', rule = lit ''allow ip from any to any''\<rparr>"

text \<open>
  The parsing as the specification words it, to compare \<open>parse_rules\<close> with. The tokens
  of a line are its maximal runs of characters that are not white space. A line with at
  least two tokens gives one rule: its number is the first token, its text is what is
  left of the line after the first token and the white space that follows it. Any other
  line gives no rule. The rules of an output are those of its lines, in the order of the
  lines.
\<close>

definition spec_tokens :: "pystr \<Rightarrow> pystr list" where
  "spec_tokens line = split_ws line"

definition spec_remainder :: "pystr \<Rightarrow> pystr" where
  "spec_remainder line =
     dropWhile is_space (dropWhile non_space (dropWhile is_space line))"

definition spec_rule_of_line :: "pystr \<Rightarrow> ipfw_rule option" where
  "spec_rule_of_line line =
     (if length (spec_tokens line) \<ge> 2
      then Some \<lparr>number = hd (spec_tokens line), rule = spec_remainder line\<rparr>
      else None)"

definition spec_parse :: "pystr \<Rightarrow> ipfw_rule list" where
  "spec_parse output = List.map_filter spec_rule_of_line (split_nl output)"

text \<open>The selection and the scroll position are inside a list of \<open>n\<close> rules.\<close>

definition nav_inv :: "nat \<Rightarrow> tui \<Rightarrow> bool" where
  "nav_inv n s \<longleftrightarrow>
     0 \<le> scroll_offset s \<and> scroll_offset s \<le> selected_index s \<and> selected_index s < int n"

text \<open>The listing of an iteration returns a list of rules, whatever it is, and does not raise.\<close>

definition fetch_returns :: "env \<Rightarrow> bool" where
  "fetch_returns e \<longleftrightarrow>
     (case list_proc e of Launch_failed \<Rightarrow> False
      | Exited rc \<Rightarrow> rc \<noteq> 0 \<or> list_stdout e \<noteq> None)"

text \<open>
  A listing of three rules on a terminal of 7 lines, where one rule fits on the screen,
  and a session in command mode with two commands in its history.
\<close>

definition three_rules_output :: pystr where
  "three_rules_output =
     lit ''100 allow a'' @ [10] @ lit ''200 deny b'' @ [10] @ lit ''300 allow c''"

definition three_rules :: "ipfw_rule list" where
  "three_rules =
     [\<lparr>number = lit ''100'', rule = lit ''allow a''\<rparr>,
      \<lparr>number = lit ''200'', rule = lit ''deny b''\<rparr>,
      \<lparr>number = lit ''300'', rule = lit ''allow c''\<rparr>]"

definition small_env :: "keystroke \<Rightarrow> env" where
  "small_env k =
     \<lparr>list_proc = Exited 0, list_stdout = Some three_rules_output, height = 7, key = k,
      cmd_proc = Exited 0\<rparr>"

definition entering :: tui where
  "entering = init\<lparr>command_mode := True, command_history := [lit ''add 1'', lit ''add 2''],
                  history_index := 2\<rparr>"

section \<open>Failures of the external tool\<close>

lemma strip_eq_Nil_iff: "strip s = [] \<longleftrightarrow> (\<forall>c\<in>set s. is_space c)"
proof -
  have "strip s = [] \<longleftrightarrow> (\<forall>c\<in>set (dropWhile is_space s). is_space c)"
    by (simp add: strip_def)
  also have "\<dots> \<longleftrightarrow> dropWhile is_space (dropWhile is_space s) = []"
    by (simp only: dropWhile_eq_Nil_conv)
  also have "\<dots> \<longleftrightarrow> dropWhile is_space s = []"
    by (simp only: dropWhile_idem)
  finally show ?thesis
    by simp
qed

lemma split_ws_unfold:
  "split_ws s =
     (if dropWhile is_space s = [] then []
      else takeWhile non_space (dropWhile is_space s) #
           split_ws (dropWhile non_space (dropWhile is_space s)))"
  by (subst split_ws.simps) (simp add: Let_def)

lemma set_concat_split_ws: "set (concat (split_ws s)) = {c \<in> set s. \<not> is_space c}"
proof (induction s rule: split_ws.induct)
  case (1 s)
  let ?d = "dropWhile is_space s"
  show ?case
  proof (cases "?d = []")
    case True
    then have "split_ws s = []"
      by (subst split_ws_unfold) simp
    moreover from True have "\<forall>c\<in>set s. is_space c"
      by simp
    ultimately show ?thesis by auto
  next
    case False
    have ih: "set (concat (split_ws (dropWhile non_space ?d))) =
                {c \<in> set (dropWhile non_space ?d). \<not> is_space c}"
      using "1.IH" [OF refl False] .
    have a: "set s = set (takeWhile is_space s) \<union> set ?d"
      by (metis set_append takeWhile_dropWhile_id)
    have b: "set ?d = set (takeWhile non_space ?d) \<union> set (dropWhile non_space ?d)"
      by (metis set_append takeWhile_dropWhile_id)
    have c: "\<forall>x\<in>set (takeWhile is_space s). is_space x"
      by (auto dest: set_takeWhileD)
    have d: "\<forall>x\<in>set (takeWhile non_space ?d). \<not> is_space x"
      by (auto dest: set_takeWhileD simp: non_space_def)
    have "split_ws s = takeWhile non_space ?d # split_ws (dropWhile non_space ?d)"
      using False by (subst split_ws_unfold) (simp del: dropWhile_eq_Nil_conv)
    then have "set (concat (split_ws s)) =
                 set (takeWhile non_space ?d) \<union> {c \<in> set (dropWhile non_space ?d). \<not> is_space c}"
      by (simp only: concat.simps set_append ih)
    also have "\<dots> = {c \<in> set ?d. \<not> is_space c}"
      using b d by auto
    also have "\<dots> = {c \<in> set s. \<not> is_space c}"
      using a c by auto
    finally show ?thesis .
  qed
qed

lemma has_nul_argv: "has_nul (a # split_ws command) \<longleftrightarrow> 0 \<in> set a \<or> 0 \<in> set command"
proof -
  have 1: "has_nul (a # split_ws command) \<longleftrightarrow> 0 \<in> set a \<or> has_nul (split_ws command)"
    by (simp add: has_nul_def)
  have 2: "has_nul (split_ws command) \<longleftrightarrow> 0 \<in> set (concat (split_ws command))"
    by (auto simp: has_nul_def list_ex_iff)
  have 3: "0 \<in> set (concat (split_ws command)) \<longleftrightarrow> 0 \<in> set command"
    by (simp only: set_concat_split_ws) (simp add: is_space_def)
  show ?thesis
    by (simp only: 1 2 3)
qed

lemma ipfw_no_nul: "0 \<notin> set (lit ''ipfw'')"
  by (simp add: lit_def)

text \<open>
  C1, as the code has it. When the listing command exits with a code other than 0,
  \<open>get_ipfw_rules\<close> returns the empty list. When the command cannot be started (the tool
  is absent), no list is returned: the error of the operating system leaves
  \<open>get_ipfw_rules\<close> as an exception, since only \<open>CalledProcessError\<close> is caught.
\<close>

theorem get_ipfw_rules_failure:
  "(\<forall>rc. list_proc e = Exited rc \<and> rc \<noteq> 0 \<longrightarrow> fst (get_ipfw_rules e s) = Inr []) \<and>
   (list_proc e = Launch_failed \<longrightarrow> fst (get_ipfw_rules e s) = Inl OSError)"
  by (simp add: get_ipfw_rules_def Let_def)

theorem get_ipfw_rules_failure_witness:
  "list_proc (failing_env (plain_key CHR ''x'')) = Exited 1 \<and> (1::int) \<noteq> 0 \<and>
   fst (get_ipfw_rules (failing_env (plain_key CHR ''x'')) init) = Inr [] \<and>
   list_proc (absent_env (plain_key CHR ''x'')) = Launch_failed \<and>
   fst (get_ipfw_rules (absent_env (plain_key CHR ''x'')) init) = Inl OSError"
  using get_ipfw_rules_failure [of "failing_env (plain_key CHR ''x'')" init]
        get_ipfw_rules_failure [of "absent_env (plain_key CHR ''x'')" init]
  by (simp add: failing_env_def absent_env_def)

text \<open>
  C1 as stated fails: with the tool absent, \<open>get_ipfw_rules\<close> does not return the empty
  list, it raises.
\<close>

theorem get_ipfw_rules_absent_raises:
  "fst (get_ipfw_rules (absent_env (plain_key CHR ''x'')) init) = Inl OSError \<and>
   fst (get_ipfw_rules (absent_env (plain_key CHR ''x'')) init) \<noteq> Inr []"
  by (simp add: get_ipfw_rules_def absent_env_def Let_def)






section \<open>Browsing\<close>

lemma sample_parse: "parse_rules (lit ''65000 allow ip from any to any'') = [sample_rule]"
  by (simp add: parse_rules_def parse_line_def split_max1_def strip_def lit_def
      is_space_def non_space_def sample_rule_def)

lemma sample_lists: "lists_rules (sample_env k p) [sample_rule]"
  by (simp add: lists_rules_def sample_env_def sample_parse)

lemma get_ipfw_rules_lists:
  "lists_rules e rs \<Longrightarrow> get_ipfw_rules e s = (Inr rs, call [lit ''ipfw'', lit ''list''] s)"
  by (auto simp: lists_rules_def get_ipfw_rules_def Let_def)

lemma iteration_browsing:
  assumes "lists_rules e rs" "\<not> command_mode s"
  shows "iteration e s =
     (case browse_input e ((call [lit ''ipfw'', lit ''list''] s)\<lparr>current_rules := rs\<rparr>) of
        (Inl x, s3) \<Rightarrow> (Inl x, s3)
      | (Inr quit, s3) \<Rightarrow> if quit then (Inr Break, s3) else (Inr Continue, clear_status s3))"
  using assms by (simp add: iteration_def get_ipfw_rules_lists call_def)

lemma lower_is_e: "lower_is k CHR ''e'' \<Longrightarrow>
   \<not> lower_is k CHR ''q'' \<and> \<not> lower_is k CHR ''a'' \<and> \<not> lower_is k CHR ''d''"
  by (auto simp: lower_is_def)

lemma lower_is_d: "lower_is k CHR ''d'' \<Longrightarrow>
   \<not> lower_is k CHR ''q'' \<and> \<not> lower_is k CHR ''a'' \<and> \<not> lower_is k CHR ''e''"
  by (auto simp: lower_is_def)

lemma py_index_in_range:
  "0 \<le> i \<Longrightarrow> i < int (length xs) \<Longrightarrow> py_index xs i = Inr (xs ! nat i)"
  by (simp add: py_index_def)

text \<open>
  C7. Outside command mode, with a list of rules that is not empty and a selection
  inside it, the key e (a plain character) puts the session into command mode with the
  command string \<open>delete <number> && add <text>\<close> of the selected rule, and the
  history index at the end of the history.
\<close>

theorem edit_prefills_command:
  assumes "lists_rules e rs" and "rs \<noteq> []" and "\<not> command_mode s"
    and "0 \<le> selected_index s" and "selected_index s < int (length rs)"
    and "lower_is (key e) CHR ''e''" and "code (key e) = None"
  shows "fst (iteration e s) = Inr Continue \<and>
         command_mode (snd (iteration e s)) \<and>
         command_string (snd (iteration e s)) =
           lit ''delete '' @ number (rs ! nat (selected_index s)) @ lit '' && add '' @
           rule (rs ! nat (selected_index s)) \<and>
         history_index (snd (iteration e s)) = int (length (command_history s))"
  using assms lower_is_e [of "key e"]
  by (simp add: iteration_browsing browse_input_def call_def py_index_in_range clear_status_def)

theorem edit_prefills_command_witness:
  "lists_rules (sample_env (plain_key CHR ''e'') (Exited 0)) [sample_rule] \<and>
   fst (iteration (sample_env (plain_key CHR ''e'') (Exited 0)) init) = Inr Continue \<and>
   command_mode (snd (iteration (sample_env (plain_key CHR ''e'') (Exited 0)) init)) \<and>
   command_string (snd (iteration (sample_env (plain_key CHR ''e'') (Exited 0)) init)) =
     lit ''delete 65000 && add allow ip from any to any'' \<and>
   history_index (snd (iteration (sample_env (plain_key CHR ''e'') (Exited 0)) init)) = 0"
  using edit_prefills_command [of "sample_env (plain_key CHR ''e'') (Exited 0)" "[sample_rule]" init]
    sample_lists [of "plain_key CHR ''e''" "Exited 0"]
  by (simp add: init_def sample_env_def plain_key_def lower_is_def sample_rule_def lit_def)

lemma split_ws_Nil_iff: "split_ws s = [] \<longleftrightarrow> (\<forall>c\<in>set s. is_space c)"
  by (subst split_ws.simps) (simp add: Let_def)

lemma split_ws_space: "is_space c \<Longrightarrow> split_ws (c # s) = split_ws s"
  by (subst split_ws.simps, subst (2) split_ws.simps) simp

lemma split_ws_one:
  assumes "n \<noteq> []" and "\<forall>c\<in>set n. \<not> is_space c"
  shows "split_ws n = [n]"
proof -
  have n: "takeWhile non_space n = n" "dropWhile non_space n = []"
    using assms by (simp_all add: non_space_def)
  have d: "dropWhile is_space n = n"
    using assms by (cases n) auto
  have "split_ws [] = []"
    by (subst split_ws.simps) simp
  then show ?thesis
    using assms(1) by (subst split_ws.simps) (simp add: d n)
qed

lemma split_ws_delete:
  assumes "n \<noteq> []" and "\<forall>c\<in>set n. \<not> is_space c"
  shows "split_ws (lit ''delete '' @ n) = [lit ''delete'', n]"
proof -
  have "split_ws (lit ''delete '' @ n) = lit ''delete'' # split_ws (32 # n)"
    by (subst split_ws.simps) (simp add: lit_def is_space_def non_space_def)
  also have "split_ws (32 # n) = split_ws n"
    by (rule split_ws_space) (simp add: is_space_def)
  finally show ?thesis
    using assms by (simp add: split_ws_one)
qed

lemma sample_env_sel:
  "key (sample_env k p) = k" "height (sample_env k p) = 24" "cmd_proc (sample_env k p) = p"
  by (simp_all add: sample_env_def)

lemma sample_delete_argv: "split_ws (lit ''delete '' @ number sample_rule) = [lit ''delete'', lit ''65000'']"
  using split_ws_delete [of "lit ''65000''"]
  by (simp add: sample_rule_def lit_def is_space_def)

lemma iteration_delete:
  assumes "lists_rules e rs" and "rs \<noteq> []" and "\<not> command_mode s"
    and "0 \<le> selected_index s" and "selected_index s < int (length rs)"
    and "lower_is (key e) CHR ''d''" and "code (key e) = None"
  shows "calls (snd (iteration e s)) =
           calls s @ [[lit ''ipfw'', lit ''list''],
                      lit ''ipfw'' # split_ws (lit ''delete '' @ number (rs ! nat (selected_index s)))]"
  using assms lower_is_d [of "key e"]
  by (cases "cmd_proc e")
    (simp_all add: iteration_browsing browse_input_def call_def py_index_in_range
       clear_status_def execute_ipfw_command_def Let_def)

lemma sample_run_delete:
  "calls (snd (run [sample_env key_down (Exited 0), sample_env (plain_key CHR ''d'') (Exited 0)] init)) =
           [[lit ''ipfw'', lit ''list''], [lit ''ipfw'', lit ''list''],
            [lit ''ipfw'', lit ''delete'', lit ''65000'']]"
proof -
  let ?e1 = "sample_env key_down (Exited 0)"
  let ?e2 = "sample_env (plain_key CHR ''d'') (Exited 0)"
  have 1: "iteration ?e1 init = (Inr Continue, init\<lparr>current_rules := [sample_rule], calls := [[lit ''ipfw'', lit ''list'']]\<rparr>)"
    by (simp add: iteration_browsing [OF sample_lists] init_def browse_input_def call_def
          clear_status_def sample_env_sel key_down_def lower_is_def)
  let ?s1 = "init\<lparr>current_rules := [sample_rule], calls := [[lit ''ipfw'', lit ''list'']]\<rparr>"
  have 2: "calls (snd (iteration ?e2 ?s1)) = [[lit ''ipfw'', lit ''list''], [lit ''ipfw'', lit ''list''],
            [lit ''ipfw'', lit ''delete'', lit ''65000'']]"
    using iteration_delete [of ?e2 "[sample_rule]" ?s1] sample_lists [of "plain_key CHR ''d''" "Exited 0"]
    by (simp add: init_def sample_env_sel plain_key_def lower_is_def sample_delete_argv)
  have 3: "fst (iteration ?e2 ?s1) = Inr Continue"
    by (simp add: iteration_browsing [OF sample_lists] init_def browse_input_def call_def
          clear_status_def sample_env_sel plain_key_def lower_is_def py_index_def
          execute_ipfw_command_def has_nul_argv ipfw_no_nul sample_rule_def lit_def Let_def)
  obtain s2 where 4: "iteration ?e2 ?s1 = (Inr Continue, s2)"
    using 3 by (cases "iteration ?e2 ?s1") auto
  show ?thesis
    using 2 by (simp add: 1 4)
qed

text \<open>
  C6. Outside command mode, with a list of rules that is not empty and a selection inside
  it, the key d (a plain character) runs the tool once after the listing, with the
  arguments of the command text \<open>delete <number>\<close> of the selected rule; when the
  number is one token, as every parsed number is, these are \<open>delete\<close> and the number.
  With the single rule parsed from \<open>65000 allow ip from any to any\<close>, the keys down and
  d run \<open>ipfw delete 65000\<close>.
\<close>

theorem delete_issues_command:
  "(lists_rules e rs \<and> rs \<noteq> [] \<and> \<not> command_mode s \<and>
    0 \<le> selected_index s \<and> selected_index s < int (length rs) \<and>
    lower_is (key e) CHR ''d'' \<and> code (key e) = None \<longrightarrow>
      calls (snd (iteration e s)) =
        calls s @ [[lit ''ipfw'', lit ''list''],
                   lit ''ipfw'' #
                     split_ws (lit ''delete '' @ number (rs ! nat (selected_index s)))]) \<and>
   (n \<noteq> [] \<and> (\<forall>c\<in>set n. \<not> is_space c) \<longrightarrow>
      split_ws (lit ''delete '' @ n) = [lit ''delete'', n]) \<and>
   parse_rules (lit ''65000 allow ip from any to any'') =
     [\<lparr>number = lit ''65000'', rule = lit ''allow ip from any to any''\<rparr>] \<and>
   calls (snd (run [sample_env key_down (Exited 0),
                    sample_env (plain_key CHR ''d'') (Exited 0)] init)) =
     [[lit ''ipfw'', lit ''list''], [lit ''ipfw'', lit ''list''],
      [lit ''ipfw'', lit ''delete'', lit ''65000'']]"
  using iteration_delete [of e rs s] split_ws_delete [of n] sample_parse sample_run_delete
  by (simp add: sample_rule_def)

theorem delete_issues_command_witness:
  "lists_rules (sample_env (plain_key CHR ''d'') (Exited 0)) [sample_rule] \<and>
   lower_is (key (sample_env (plain_key CHR ''d'') (Exited 0))) CHR ''d'' \<and>
   calls (snd (iteration (sample_env (plain_key CHR ''d'') (Exited 0)) init)) =
     [[lit ''ipfw'', lit ''list''], [lit ''ipfw'', lit ''delete'', lit ''65000'']] \<and>
   split_ws (lit ''delete '' @ lit ''65000'') = [lit ''delete'', lit ''65000'']"
  using delete_issues_command
      [of "sample_env (plain_key CHR ''d'') (Exited 0)" "[sample_rule]" init "lit ''65000''"]
    sample_lists [of "plain_key CHR ''d''" "Exited 0"]
  by (simp add: init_def sample_env_sel plain_key_def lower_is_def sample_rule_def
        lit_def is_space_def)

text \<open>
  C10. With no rules, the keys d and e (plain characters) do nothing in the branch of the
  loop that handles them: the session is returned as it was, so no command is run, no
  rule is read, nothing is raised and command mode is not entered. The iteration as a
  whole then differs from the session before it only by the listing it ran and by the
  status message, which the end of the loop body empties.
\<close>

theorem empty_rules_delete_edit:
  assumes "lower_is (key e) CHR ''d'' \<or> lower_is (key e) CHR ''e''" and "code (key e) = None"
  shows "(current_rules s = [] \<longrightarrow> browse_input e s = (Inr False, s)) \<and>
         (\<not> command_mode s \<and> fst (get_ipfw_rules e s) = Inr [] \<longrightarrow>
            iteration e s =
              (Inr Continue,
               (call [lit ''ipfw'', lit ''list''] s)\<lparr>current_rules := [], status_message := []\<rparr>))"
proof -
  have k: "\<not> lower_is (key e) CHR ''q''" "\<not> lower_is (key e) CHR ''a''"
    using assms(1) lower_is_d [of "key e"] lower_is_e [of "key e"] by auto
  have b: "browse_input e s' = (Inr False, s')" if "current_rules s' = []" for s'
    using that k assms(2) by (simp add: browse_input_def Let_def)
  have g: "snd (get_ipfw_rules e s) = call [lit ''ipfw'', lit ''list''] s"
    by (simp add: get_ipfw_rules_def Let_def split: proc_outcome.splits option.splits)
  show ?thesis
  proof (intro conjI impI)
    assume "current_rules s = []" then show "browse_input e s = (Inr False, s)" by (rule b)
  next
    assume a: "\<not> command_mode s \<and> fst (get_ipfw_rules e s) = Inr []"
    then have "get_ipfw_rules e s = (Inr [], call [lit ''ipfw'', lit ''list''] s)"
      using g by (metis prod.collapse)
    then show "iteration e s = (Inr Continue,
               (call [lit ''ipfw'', lit ''list''] s)\<lparr>current_rules := [], status_message := []\<rparr>)"
      using a by (simp add: iteration_def b call_def clear_status_def)
  qed
qed

theorem empty_rules_delete_edit_witness:
  "browse_input (failing_env (plain_key CHR ''d'')) init = (Inr False, init) \<and>
   browse_input (failing_env (plain_key CHR ''e'')) init = (Inr False, init) \<and>
   iteration (failing_env (plain_key CHR ''d'')) init =
     (Inr Continue, init\<lparr>calls := [[lit ''ipfw'', lit ''list'']]\<rparr>) \<and>
   iteration (failing_env (plain_key CHR ''e'')) init =
     (Inr Continue, init\<lparr>calls := [[lit ''ipfw'', lit ''list'']]\<rparr>)"
  using empty_rules_delete_edit [of "failing_env (plain_key CHR ''d'')" init]
        empty_rules_delete_edit [of "failing_env (plain_key CHR ''e'')" init]
  by (simp add: failing_env_def plain_key_def lower_is_def init_def get_ipfw_rules_def
        call_def Let_def)

section \<open>Navigation\<close>

lemma three_parse: "parse_rules three_rules_output = three_rules"
  by (simp add: three_rules_output_def three_rules_def parse_rules_def parse_line_def
      split_max1_def strip_def lit_def is_space_def non_space_def)

lemma small_lists: "lists_rules (small_env k) three_rules"
  by (simp add: lists_rules_def small_env_def three_parse)

lemma small_env_sel: "key (small_env k) = k" "height (small_env k) = 7"
  by (simp_all add: small_env_def)

lemma iteration_arrow:
  assumes "lists_rules e rs" and "\<not> command_mode s" and "is_arrow (key e)"
    and "nav_inv (length rs) s"
  shows "fst (iteration e s) = Inr Continue \<and> \<not> command_mode (snd (iteration e s)) \<and>
         nav_inv (length rs) (snd (iteration e s)) \<and> current_rules (snd (iteration e s)) = rs"
  using assms
  by (auto simp: iteration_browsing browse_input_def call_def clear_status_def is_arrow_def
        nav_inv_def Let_def)

lemma run_Cons_Continue:
  "fst (iteration e s) = Inr Continue \<Longrightarrow> run (e # es) s = run es (snd (iteration e s))"
  by (cases "iteration e s") auto

lemma run_arrows:
  assumes "\<forall>e\<in>set es. lists_rules e rs \<and> is_arrow (key e)"
    and "\<not> command_mode s" and "nav_inv (length rs) s"
  shows "fst (run es s) = Inr Continue \<and> \<not> command_mode (snd (run es s)) \<and>
         nav_inv (length rs) (snd (run es s))"
  using assms
proof (induction es arbitrary: s)
  case Nil
  then show ?case by simp
next
  case (Cons e es)
  have step: "fst (iteration e s) = Inr Continue \<and> \<not> command_mode (snd (iteration e s)) \<and>
         nav_inv (length rs) (snd (iteration e s))"
    using Cons.prems iteration_arrow [of e rs s] by simp
  then have r: "run (e # es) s = run es (snd (iteration e s))"
    by (intro run_Cons_Continue) simp
  show ?case
    unfolding r using step Cons.IH [of "snd (iteration e s)"] Cons.prems(1) by simp
qed

text \<open>
  C4. With the same list of rules, not empty, fetched in every iteration, and a session
  outside command mode whose selection and scroll position are 0, after each key of any
  sequence of arrow keys the loop goes on and
  \<open>0 \<le> scroll_offset \<le> selected_index < len(rules)\<close>, whatever the heights of the
  terminal are.
\<close>

theorem navigation_keeps_selection_in_range:
  assumes "rs \<noteq> []" and "\<forall>e\<in>set es. lists_rules e rs \<and> is_arrow (key e)"
    and "\<not> command_mode s" and "selected_index s = 0" and "scroll_offset s = 0"
  shows "\<forall>n\<le>length es.
           fst (run (take n es) s) = Inr Continue \<and>
           0 \<le> scroll_offset (snd (run (take n es) s)) \<and>
           scroll_offset (snd (run (take n es) s)) \<le> selected_index (snd (run (take n es) s)) \<and>
           selected_index (snd (run (take n es) s)) < int (length rs)"
proof (intro allI impI)
  fix n assume "n \<le> length es"
  have "\<forall>e\<in>set (take n es). lists_rules e rs \<and> is_arrow (key e)"
    using assms(2) by (meson in_set_takeD)
  moreover have "nav_inv (length rs) s"
    using assms by (simp add: nav_inv_def)
  ultimately show "fst (run (take n es) s) = Inr Continue \<and>
           0 \<le> scroll_offset (snd (run (take n es) s)) \<and>
           scroll_offset (snd (run (take n es) s)) \<le> selected_index (snd (run (take n es) s)) \<and>
           selected_index (snd (run (take n es) s)) < int (length rs)"
    using run_arrows [of "take n es" rs s] assms(3) by (simp add: nav_inv_def)
qed

theorem navigation_keeps_selection_in_range_witness:
  "three_rules \<noteq> [] \<and>
   lists_rules (small_env key_down) three_rules \<and> is_arrow key_down \<and>
   lists_rules (small_env key_up) three_rules \<and> is_arrow key_up \<and>
   fst (run [small_env key_down, small_env key_down, small_env key_up] init) = Inr Continue \<and>
   0 \<le> scroll_offset (snd (run [small_env key_down, small_env key_down, small_env key_up] init)) \<and>
   scroll_offset (snd (run [small_env key_down, small_env key_down, small_env key_up] init))
     \<le> selected_index (snd (run [small_env key_down, small_env key_down, small_env key_up] init)) \<and>
   selected_index (snd (run [small_env key_down, small_env key_down, small_env key_up] init))
     < int (length three_rules)"
  using navigation_keeps_selection_in_range
      [of three_rules "[small_env key_down, small_env key_down, small_env key_up]" init,
       THEN spec, of 3]
    small_lists [of key_down] small_lists [of key_up]
  by (simp add: small_env_sel is_arrow_def key_down_def key_up_def lower_is_def init_def
        three_rules_def)

section \<open>The history of commands\<close>

lemma get_ipfw_rules_returns:
  "fetch_returns e \<Longrightarrow> \<exists>rs. get_ipfw_rules e s = (Inr rs, call [lit ''ipfw'', lit ''list''] s)"
  by (auto simp: fetch_returns_def get_ipfw_rules_def Let_def split: proc_outcome.splits)

lemma iteration_history_key:
  assumes "command_mode s" and "fetch_returns e"
    and "code (key e) = Some KEY_UP \<or> code (key e) = Some KEY_DOWN"
    and "0 \<le> history_index s" and "history_index s \<le> int (length (command_history s))"
  shows "fst (iteration e s) = Inr Continue \<and> command_mode (snd (iteration e s)) \<and>
         command_history (snd (iteration e s)) = command_history s \<and>
         (code (key e) = Some KEY_UP \<longrightarrow>
            history_index (snd (iteration e s)) = max 0 (history_index s - 1)) \<and>
         (code (key e) = Some KEY_DOWN \<longrightarrow>
            history_index (snd (iteration e s)) =
              (if history_index s < int (length (command_history s)) - 1
               then history_index s + 1 else history_index s))"
proof -
  obtain rs where g: "get_ipfw_rules e s = (Inr rs, call [lit ''ipfw'', lit ''list''] s)"
    using get_ipfw_rules_returns [OF assms(2)] by blast
  show ?thesis
    using assms(1,3,4,5)
    by (auto simp: iteration_def g call_def handle_command_input_def Let_def py_index_def
          clear_status_def)
qed


lemma run_history_keys:
  assumes "\<forall>e\<in>set es. fetch_returns e \<and>
             (code (key e) = Some KEY_UP \<or> code (key e) = Some KEY_DOWN)"
    and "command_mode s"
    and "0 \<le> history_index s" and "history_index s \<le> int (length (command_history s))"
  shows "fst (run es s) = Inr Continue \<and> command_mode (snd (run es s)) \<and>
         command_history (snd (run es s)) = command_history s \<and>
         0 \<le> history_index (snd (run es s)) \<and>
         history_index (snd (run es s)) \<le> int (length (command_history s))"
  using assms
proof (induction es arbitrary: s)
  case Nil
  then show ?case by simp
next
  case (Cons e es)
  let ?t = "snd (iteration e s)"
  have step: "fst (iteration e s) = Inr Continue \<and> command_mode ?t \<and>
         command_history ?t = command_history s \<and>
         (code (key e) = Some KEY_UP \<longrightarrow> history_index ?t = max 0 (history_index s - 1)) \<and>
         (code (key e) = Some KEY_DOWN \<longrightarrow>
            history_index ?t =
              (if history_index s < int (length (command_history s)) - 1
               then history_index s + 1 else history_index s))"
    using Cons.prems iteration_history_key [of s e] by simp
  have k: "code (key e) = Some KEY_UP \<or> code (key e) = Some KEY_DOWN"
    using Cons.prems(1) by simp
  have b: "0 \<le> history_index ?t \<and> history_index ?t \<le> int (length (command_history ?t))"
    using step k Cons.prems(3,4) by (auto split: if_splits)
  have r: "run (e # es) s = run es ?t"
    using step by (intro run_Cons_Continue) simp
  show ?case
    unfolding r using step b Cons.IH [of ?t] Cons.prems(1) by simp
qed

text \<open>
  C8. In command mode, with the history index at the end of the history, as the keys a
  and e leave it, after each key of any sequence of up and down keys the loop goes on,
  the history is the same and \<open>0 \<le> history_index \<le> len(command_history)\<close>. One key
  moves the index by one and stops at the ends: up goes one down but not below 0, down
  goes one up but not beyond the last command.
\<close>

theorem history_index_stays_in_range:
  assumes "\<forall>e\<in>set es. fetch_returns e \<and>
             (code (key e) = Some KEY_UP \<or> code (key e) = Some KEY_DOWN)"
    and "command_mode s" and "history_index s = int (length (command_history s))"
  shows "(\<forall>n\<le>length es.
           fst (run (take n es) s) = Inr Continue \<and>
           command_history (snd (run (take n es) s)) = command_history s \<and>
           0 \<le> history_index (snd (run (take n es) s)) \<and>
           history_index (snd (run (take n es) s)) \<le> int (length (command_history s))) \<and>
         (command_mode t \<and> fetch_returns e \<and>
          0 \<le> history_index t \<and> history_index t \<le> int (length (command_history t)) \<longrightarrow>
            (code (key e) = Some KEY_UP \<longrightarrow>
               history_index (snd (iteration e t)) = max 0 (history_index t - 1)) \<and>
            (code (key e) = Some KEY_DOWN \<longrightarrow>
               history_index (snd (iteration e t)) =
                 (if history_index t < int (length (command_history t)) - 1
                  then history_index t + 1 else history_index t)))"
proof (intro conjI allI impI)
  fix n assume "n \<le> length es"
  have "\<forall>e\<in>set (take n es). fetch_returns e \<and>
             (code (key e) = Some KEY_UP \<or> code (key e) = Some KEY_DOWN)"
    using assms(1) by (meson in_set_takeD)
  then have r: "fst (run (take n es) s) = Inr Continue \<and>
         command_mode (snd (run (take n es) s)) \<and>
         command_history (snd (run (take n es) s)) = command_history s \<and>
         0 \<le> history_index (snd (run (take n es) s)) \<and>
         history_index (snd (run (take n es) s)) \<le> int (length (command_history s))"
    using run_history_keys [of "take n es" s] assms(2,3) by simp
  from r show "fst (run (take n es) s) = Inr Continue" by simp
  from r show "command_history (snd (run (take n es) s)) = command_history s" by simp
  from r show "0 \<le> history_index (snd (run (take n es) s))" by simp
  from r show "history_index (snd (run (take n es) s)) \<le> int (length (command_history s))"
    by simp
next
  assume a: "command_mode t \<and> fetch_returns e \<and>
          0 \<le> history_index t \<and> history_index t \<le> int (length (command_history t))"
  {
    assume "code (key e) = Some KEY_UP"
    then show "history_index (snd (iteration e t)) = max 0 (history_index t - 1)"
      using a iteration_history_key [of t e] by simp
  }
  {
    assume "code (key e) = Some KEY_DOWN"
    then show "history_index (snd (iteration e t)) =
                 (if history_index t < int (length (command_history t)) - 1
                  then history_index t + 1 else history_index t)"
      using a iteration_history_key [of t e] by simp
  }
qed

theorem history_index_stays_in_range_witness:
  "command_mode entering \<and> history_index entering = int (length (command_history entering)) \<and>
   fetch_returns (sample_env key_up (Exited 0)) \<and>
   fetch_returns (sample_env key_down (Exited 0)) \<and>
   fst (run [sample_env key_up (Exited 0), sample_env key_up (Exited 0),
             sample_env key_up (Exited 0), sample_env key_down (Exited 0),
             sample_env key_down (Exited 0)] entering) = Inr Continue \<and>
   0 \<le> history_index
         (snd (run [sample_env key_up (Exited 0), sample_env key_up (Exited 0),
                    sample_env key_up (Exited 0), sample_env key_down (Exited 0),
                    sample_env key_down (Exited 0)] entering)) \<and>
   history_index
     (snd (run [sample_env key_up (Exited 0), sample_env key_up (Exited 0),
                sample_env key_up (Exited 0), sample_env key_down (Exited 0),
                sample_env key_down (Exited 0)] entering)) \<le> 2 \<and>
   history_index (snd (iteration (sample_env key_up (Exited 0)) entering)) = 1 \<and>
   history_index (snd (iteration (sample_env key_down (Exited 0)) entering)) = 2"
  using history_index_stays_in_range
      [of "[sample_env key_up (Exited 0), sample_env key_up (Exited 0),
            sample_env key_up (Exited 0), sample_env key_down (Exited 0),
            sample_env key_down (Exited 0)]" entering entering "sample_env key_up (Exited 0)",
       THEN conjunct1, THEN spec, of 5]
    history_index_stays_in_range
      [of "[]" entering entering "sample_env key_up (Exited 0)", THEN conjunct2]
    history_index_stays_in_range
      [of "[]" entering entering "sample_env key_down (Exited 0)", THEN conjunct2]
  by (simp add: entering_def init_def sample_env_def fetch_returns_def key_up_def key_down_def)

section \<open>Parsing the listing\<close>

lemma split_ws_Nil_drop: "split_ws s = [] \<longleftrightarrow> dropWhile is_space s = []"
  by (subst split_ws_unfold) simp

lemma two_tokens_iff:
  "2 \<le> length (split_ws s) \<longleftrightarrow>
     dropWhile is_space s \<noteq> [] \<and>
     dropWhile is_space (dropWhile non_space (dropWhile is_space s)) \<noteq> []"
proof (cases "dropWhile is_space s = []")
  case True
  then show ?thesis by (simp add: split_ws_Nil_drop [THEN iffD2])
next
  case False
  then have "length (split_ws s) =
      Suc (length (split_ws (dropWhile non_space (dropWhile is_space s))))"
    by (subst split_ws_unfold) simp
  moreover have "length (split_ws r) \<ge> 1 \<longleftrightarrow> dropWhile is_space r \<noteq> []" for r
    using split_ws_Nil_drop [of r] by (cases "split_ws r") auto
  ultimately show ?thesis using False by auto
qed

lemma hd_split_ws:
  "dropWhile is_space s \<noteq> [] \<Longrightarrow> hd (split_ws s) = takeWhile non_space (dropWhile is_space s)"
  by (subst split_ws_unfold) (simp del: dropWhile_eq_Nil_conv)

lemma strip_nonempty_drop: "strip s \<noteq> [] \<longleftrightarrow> dropWhile is_space s \<noteq> []"
  by (simp add: strip_eq_Nil_iff)

lemma parse_line_spec:
  "parse_line line rules =
     rules @ (case spec_rule_of_line line of None \<Rightarrow> [] | Some r \<Rightarrow> [r])"
proof (cases "2 \<le> length (split_ws line)")
  case True
  then have d: "dropWhile is_space line \<noteq> []"
    "dropWhile is_space (dropWhile non_space (dropWhile is_space line)) \<noteq> []"
    by (simp_all add: two_tokens_iff)
  have "parse_line line rules =
          rules @ [\<lparr>number = takeWhile non_space (dropWhile is_space line),
                     rule = dropWhile is_space (dropWhile non_space (dropWhile is_space line))\<rparr>]"
    using d by (simp add: parse_line_def strip_nonempty_drop split_max1_def Let_def)
  then show ?thesis
    using True d
    by (simp add: spec_rule_of_line_def spec_tokens_def spec_remainder_def hd_split_ws)
next
  case False
  then have "dropWhile is_space line = [] \<or>
     dropWhile is_space (dropWhile non_space (dropWhile is_space line)) = []"
    by (simp add: two_tokens_iff)
  then have "parse_line line rules = rules"
    by (auto simp: parse_line_def strip_nonempty_drop split_max1_def Let_def)
  then show ?thesis
    using False by (simp add: spec_rule_of_line_def spec_tokens_def)
qed

lemma foldl_parse_line:
  "foldl (\<lambda>rules line. parse_line line rules) acc ls =
     acc @ List.map_filter spec_rule_of_line ls"
proof (induction ls arbitrary: acc)
  case Nil
  then show ?case by simp
next
  case (Cons l ls)
  have "foldl (\<lambda>rules line. parse_line line rules) acc (l # ls) =
          foldl (\<lambda>rules line. parse_line line rules) (parse_line l acc) ls"
    by simp
  also have "\<dots> = parse_line l acc @ List.map_filter spec_rule_of_line ls"
    by (rule Cons.IH)
  also have "\<dots> = acc @ List.map_filter spec_rule_of_line (l # ls)"
    by (simp add: parse_line_spec split: option.splits)
  finally show ?case .
qed

lemma spec_rule_of_line_fields:
  assumes "\<forall>c\<in>set pre. is_space c"
    and "tok \<noteq> []" and "\<forall>c\<in>set tok. \<not> is_space c"
    and "ws \<noteq> []" and "\<forall>c\<in>set ws. is_space c"
    and "rest \<noteq> []" and "\<not> is_space (hd rest)"
  shows "spec_rule_of_line (pre @ tok @ ws @ rest) = Some \<lparr>number = tok, rule = rest\<rparr>"
proof -
  obtain t ts where tok: "tok = t # ts" using assms(2) by (cases tok) auto
  obtain w wt where ws: "ws = w # wt" using assms(4) by (cases ws) auto
  obtain r rt where rest: "rest = r # rt" using assms(6) by (cases rest) auto
  have 1: "dropWhile is_space (pre @ tok @ ws @ rest) = tok @ ws @ rest"
    using assms(1,3) tok by simp
  have 2: "takeWhile non_space (tok @ ws @ rest) = tok"
    using assms(3,5) ws by (simp add: non_space_def)
  have 3: "dropWhile non_space (tok @ ws @ rest) = ws @ rest"
    using assms(3,5) ws by (simp add: non_space_def)
  have 4: "dropWhile is_space (ws @ rest) = rest"
    using assms(5,7) rest by simp
  have "2 \<le> length (split_ws (pre @ tok @ ws @ rest))"
    using assms(2,6) by (simp add: two_tokens_iff 1 3 4)
  then show ?thesis
    using assms(2)
    by (simp add: spec_rule_of_line_def spec_tokens_def spec_remainder_def hd_split_ws 1 2 3 4)
qed

lemma spec_rule_of_line_blank:
  "\<forall>c\<in>set line. is_space c \<Longrightarrow> spec_rule_of_line line = None"
  by (simp add: spec_rule_of_line_def spec_tokens_def two_tokens_iff)

lemma spec_rule_of_line_one_token:
  assumes "\<forall>c\<in>set pre. is_space c"
    and "tok \<noteq> []" and "\<forall>c\<in>set tok. \<not> is_space c"
    and "\<forall>c\<in>set ws. is_space c"
  shows "spec_rule_of_line (pre @ tok @ ws) = None"
proof -
  obtain t ts where tok: "tok = t # ts" using assms(2) by (cases tok) auto
  have 1: "dropWhile is_space (pre @ tok @ ws) = tok @ ws"
    using assms(1,3) tok by simp
  have 3: "dropWhile non_space (tok @ ws) = ws"
  proof (cases ws)
    case Nil
    then show ?thesis using assms(3) by (simp add: non_space_def)
  next
    case (Cons w wt)
    then show ?thesis using assms(3,4) by (simp add: non_space_def)
  qed
  have "\<not> 2 \<le> length (split_ws (pre @ tok @ ws))"
    using assms(4) by (simp add: two_tokens_iff 1 3)
  then show ?thesis
    by (simp add: spec_rule_of_line_def spec_tokens_def)
qed

lemma split_nl_line: "10 \<notin> set l \<Longrightarrow> split_nl l = [l]"
  by (induction l) auto

lemma split_nl_append: "10 \<notin> set l \<Longrightarrow> split_nl (l @ 10 # rest) = l # split_nl rest"
  by (induction l) auto

lemma parse_rules_spec: "parse_rules out = spec_parse out"
  by (simp add: parse_rules_def spec_parse_def foldl_parse_line)

lemma parse_rules_line:
  "10 \<notin> set l \<Longrightarrow>
     parse_rules l = (case spec_rule_of_line l of None \<Rightarrow> [] | Some r \<Rightarrow> [r])"
  by (simp add: parse_rules_spec spec_parse_def split_nl_line split: option.splits)

lemma parse_rules_lines:
  "10 \<notin> set l \<Longrightarrow>
     parse_rules (l @ 10 # rest) =
       (case spec_rule_of_line l of None \<Rightarrow> [] | Some r \<Rightarrow> [r]) @ parse_rules rest"
  by (simp add: parse_rules_spec spec_parse_def split_nl_append split: option.splits)

text \<open>
  C5. \<open>parse_rules\<close> is the parsing of the specification: the rules of the lines of the
  output, in the order of the lines. A line without line feed, alone or followed by a
  line feed and more output, gives its rule, if it has one, in front of the rules of the
  rest. A line made of optional white space, a first token, white space and a remainder
  that starts with another token gives the rule with that token as number and that
  remainder as text. A line with one token only, and a line of white space only, give no
  rule.
\<close>

theorem parse_rules_refines_spec:
  "parse_rules out = spec_parse out \<and>
   (10 \<notin> set l \<longrightarrow>
      parse_rules l = (case spec_rule_of_line l of None \<Rightarrow> [] | Some r \<Rightarrow> [r]) \<and>
      parse_rules (l @ 10 # others) =
        (case spec_rule_of_line l of None \<Rightarrow> [] | Some r \<Rightarrow> [r]) @ parse_rules others) \<and>
   ((\<forall>c\<in>set pre. is_space c) \<and> tok \<noteq> [] \<and> (\<forall>c\<in>set tok. \<not> is_space c) \<and>
    ws \<noteq> [] \<and> (\<forall>c\<in>set ws. is_space c) \<and> rest \<noteq> [] \<and> \<not> is_space (hd rest) \<longrightarrow>
      spec_rule_of_line (pre @ tok @ ws @ rest) = Some \<lparr>number = tok, rule = rest\<rparr>) \<and>
   ((\<forall>c\<in>set pre. is_space c) \<and> tok \<noteq> [] \<and> (\<forall>c\<in>set tok. \<not> is_space c) \<and>
    (\<forall>c\<in>set ws. is_space c) \<longrightarrow>
      spec_rule_of_line (pre @ tok @ ws) = None) \<and>
   ((\<forall>c\<in>set blank. is_space c) \<longrightarrow> spec_rule_of_line blank = None)"
  using parse_rules_spec [of out] parse_rules_line [of l] parse_rules_lines [of l others]
    spec_rule_of_line_fields [of pre tok ws rest] spec_rule_of_line_one_token [of pre tok ws]
    spec_rule_of_line_blank [of blank]
  by simp

theorem parse_rules_refines_spec_witness:
  "spec_parse three_rules_output = three_rules \<and>
   parse_rules (lit ''100 allow a'') = [\<lparr>number = lit ''100'', rule = lit ''allow a''\<rparr>] \<and>
   parse_rules (lit ''100 allow a'' @ 10 # lit ''200'') =
     [\<lparr>number = lit ''100'', rule = lit ''allow a''\<rparr>] @ parse_rules (lit ''200'') \<and>
   spec_rule_of_line ([] @ lit ''100'' @ [32] @ lit ''allow a'') =
     Some \<lparr>number = lit ''100'', rule = lit ''allow a''\<rparr> \<and>
   spec_rule_of_line ([] @ lit ''200'' @ []) = None \<and>
   spec_rule_of_line [32, 9] = None"
  using parse_rules_refines_spec
      [where out = three_rules_output and l = "lit ''100 allow a''" and others = "lit ''200''"
         and pre = "[]" and tok = "lit ''100''" and ws = "[32]" and rest = "lit ''allow a''"
         and blank = "[32, 9]"]
    parse_rules_refines_spec
      [where pre = "[]" and tok = "lit ''200''" and ws = "[]", THEN conjunct2, THEN conjunct2,
       THEN conjunct2, THEN conjunct1]
    three_parse
  by (simp add: lit_def is_space_def)

section \<open>The status message\<close>

text \<open>
  What the loop does with the status message. An iteration that starts and ends outside
  command mode ends with an empty message, whatever the key was. The Enter key in command
  mode leaves the message of the command it ran, since \<open>continue\<close> skips the end of the
  loop body; the Escape key takes the same way out and leaves the message as it was.
\<close>

lemma browsing_status_cleared:
  assumes "\<not> command_mode s" and "fst (iteration e s) = Inr Continue"
    and "\<not> command_mode (snd (iteration e s))"
  shows "status_message (snd (iteration e s)) = []"
proof -
  obtain r s1 where g: "get_ipfw_rules e s = (r, s1)" by (cases "get_ipfw_rules e s")
  have c1: "\<not> command_mode s1"
    using g assms(1) by (auto simp: get_ipfw_rules_def call_def Let_def split: proc_outcome.splits option.splits if_splits)
  show ?thesis
  proof (cases r)
    case (Inl x)
    then show ?thesis using assms(2) g by (simp add: iteration_def)
  next
    case (Inr rs)
    obtain q s3 where b: "browse_input e (s1\<lparr>current_rules := rs\<rparr>) = (q, s3)"
      by (cases "browse_input e (s1\<lparr>current_rules := rs\<rparr>)")
    show ?thesis
      using assms(2,3) g Inr b c1
      by (cases q) (auto simp: iteration_def clear_status_def split: if_splits)
  qed
qed

lemma enter_sets_status:
  assumes "command_mode s" and "fetch_returns e" and "code (key e) = Some KEY_ENTER"
    and "cmd_proc e = Exited rc" and "0 \<notin> set (command_string s)"
  shows "fst (iteration e s) = Inr Continue \<and> \<not> command_mode (snd (iteration e s)) \<and>
         status_message (snd (iteration e s)) =
           (if rc = 0 then lit ''Command executed successfully''
            else lit ''Error executing command'')"
proof -
  obtain rs where g: "get_ipfw_rules e s = (Inr rs, call [lit ''ipfw'', lit ''list''] s)"
    using get_ipfw_rules_returns [OF assms(2)] by blast
  show ?thesis
    using assms(1,3,4,5)
    by (simp add: iteration_def g call_def handle_command_input_def execute_ipfw_command_def
          has_nul_argv ipfw_no_nul Let_def)
qed

lemma escape_keeps_status:
  assumes "command_mode s" and "fetch_returns e" and "code (key e) = Some KEY_ESCAPE"
  shows "fst (iteration e s) = Inr Continue \<and> \<not> command_mode (snd (iteration e s)) \<and>
         status_message (snd (iteration e s)) = status_message s"
proof -
  obtain rs where g: "get_ipfw_rules e s = (Inr rs, call [lit ''ipfw'', lit ''list''] s)"
    using get_ipfw_rules_returns [OF assms(2)] by blast
  show ?thesis
    using assms(1,3)
    by (simp add: iteration_def g call_def handle_command_input_def Let_def)
qed

text \<open>
  C3 says that the message set by the key d is still there at the next redraw. It is
  not: the branch of d sets \<open>Deleted rule 65000\<close>, and the end of the same iteration
  empties the message before the screen is drawn again, so nothing is shown.
\<close>

theorem delete_status_is_lost:
  "status_message
     (snd (browse_input (sample_env (plain_key CHR ''d'') (Exited 0))
        (init\<lparr>current_rules := [sample_rule]\<rparr>))) = lit ''Deleted rule 65000'' \<and>
   fst (iteration (sample_env (plain_key CHR ''d'') (Exited 0)) init) = Inr Continue \<and>
   \<not> command_mode (snd (iteration (sample_env (plain_key CHR ''d'') (Exited 0)) init)) \<and>
   status_message (snd (iteration (sample_env (plain_key CHR ''d'') (Exited 0)) init)) = [] \<and>
   drawn_status (snd (iteration (sample_env (plain_key CHR ''d'') (Exited 0)) init)) = None"
  by (simp add: iteration_browsing [OF sample_lists] init_def browse_input_def call_def
        clear_status_def sample_env_sel plain_key_def lower_is_def py_index_def
        execute_ipfw_command_def has_nul_argv ipfw_no_nul drawn_status_def Let_def sample_rule_def lit_def)

text \<open>
  C3 also says that the message is empty after Escape. After a command run with Enter,
  the key a and then Escape, the loop is outside command mode and the message of the
  command is still there.
\<close>

lemma escape_shows_old_status:
  "fst (run [sample_env (plain_key CHR ''a'') (Exited 0), sample_env key_enter (Exited 0),
             sample_env (plain_key CHR ''a'') (Exited 0), sample_env key_escape (Exited 0)] init)
     = Inr Continue \<and>
   \<not> command_mode
     (snd (run [sample_env (plain_key CHR ''a'') (Exited 0), sample_env key_enter (Exited 0),
             sample_env (plain_key CHR ''a'') (Exited 0), sample_env key_escape (Exited 0)] init)) \<and>
   status_message
     (snd (run [sample_env (plain_key CHR ''a'') (Exited 0), sample_env key_enter (Exited 0),
             sample_env (plain_key CHR ''a'') (Exited 0), sample_env key_escape (Exited 0)] init))
     = lit ''Command executed successfully''"
  by (simp add: iteration_def get_ipfw_rules_lists [OF sample_lists] init_def browse_input_def
        handle_command_input_def call_def clear_status_def sample_env_sel plain_key_def
        key_enter_def key_escape_def lower_is_def execute_ipfw_command_def has_nul_argv ipfw_no_nul
        Let_def strip_def)

end
